theory Spec2Isabelle
  imports Complex_Main "HOL-Library.List_Lexorder" "HOL-Library.Char_ord" "HOL-Library.Log_Nat"
begin

section \<open>NeuraPath: role skill profiles and resume fit scoring\<close>

text \<open>
  A shallow embedding of the code cells of \<^verbatim>\<open>neurapath_demo.ipynb\<close>.

  \<^item> A pandas table is the list of its rows, in row order. The tables the notebook keeps
    as globals (\<^verbatim>\<open>skills\<close>, \<^verbatim>\<open>job_skills\<close>, \<^verbatim>\<open>job_roles\<close>)
    are the fields of one record that every function receives.
  \<^item> A Python float is the rational number it holds, and every arithmetic operation on
    floats rounds its exact result to a double (\<open>fl\<close> below); comparisons are exact.
  \<^item> Text is 8-bit: \<^verbatim>\<open>lower()\<close> maps the letters A-Z, and the regular
    expression classes \<^verbatim>\<open>\w\<close> and \<^verbatim>\<open>[a-z0-9]\<close> are the ASCII ones.
  \<^item> A Python exception is a value \<open>Inl e\<close> of the result type.
\<close>

subsection \<open>Data model\<close>

datatype py_error = AttributeError | KeyError

text \<open>The global tables: the skill catalog (skill_abr, skill_name), the job-skill links
  (job_id, skill_abr) and the job-role links (job_id, role).\<close>

record tables =
  skills :: "(string \<times> string) list"
  job_skills :: "(int \<times> string) list"
  job_roles :: "(int \<times> string) list"

text \<open>One row of a role profile, with the columns in the order the code adds them. The
  name is \<open>None\<close> where the left merge found no catalog entry (pandas' NaN).\<close>

record profile_row =
  skill_abr :: string
  count :: nat
  pct_jobs :: rat
  skill_name :: "string option"
  required :: bool
  role :: string

text \<open>
  \<^verbatim>\<open>pd.DataFrame()\<close> has no rows and no columns, so reading a column of it raises;
  a frame that went through the aggregation has the six columns even when it has no row.
\<close>

datatype dataframe = EmptyFrame | Frame "profile_row list"

fun rows_of :: "dataframe \<Rightarrow> profile_row list" where
  "rows_of EmptyFrame = []"
| "rows_of (Frame rs) = rs"

subsection \<open>Floating point\<close>

text \<open>
  Rounding to the nearest double, a tie to the even significand: 53 significant bits and an
  unbounded exponent. Overflow, subnormal numbers, infinities and NaN are not modelled; no
  value of this program comes near them. \<open>binade x\<close> is the exponent \<open>e\<close> with
  \<open>2\<^sup>e \<le> |x| < 2\<^sup>e\<^sup>+\<^sup>1\<close>.
\<close>

definition round_half_even :: "rat \<Rightarrow> int" where
  "round_half_even y =
     (let f = \<lfloor>y\<rfloor>; d = y - of_int f
      in if d < 1 / 2 then f else if 1 / 2 < d then f + 1 else if even f then f else f + 1)"

definition binade :: "rat \<Rightarrow> int" where
  "binade x =
     (let (p, q) = quotient_of \<bar>x\<bar>; e = bitlen p - bitlen q
      in if \<bar>x\<bar> < 2 powi e then e - 1 else e)"

definition fl :: "rat \<Rightarrow> rat" where
  "fl x = (if x = 0 then 0
           else let u = 2 powi (binade x - 52) in of_int (round_half_even (x / u)) * u)"

subsection \<open>Role skill profiles\<close>

text \<open>\<^verbatim>\<open>Series.unique()\<close>: the distinct values in order of first appearance.\<close>

fun unique :: "'a list \<Rightarrow> 'a list" where
  "unique [] = []"
| "unique (x # xs) = x # unique (filter (\<lambda>y. y \<noteq> x) xs)"

text \<open>
  \<^verbatim>\<open>sort_values(..., ascending=False)\<close> on one key. pandas compares the key alone
  and promises no order among rows with equal keys; the model keeps such rows in their
  input order, as a stable sort does, which is \<open>sort_key\<close> on the negated key.
\<close>

definition sort_values_desc :: "('a \<Rightarrow> rat) \<Rightarrow> 'a list \<Rightarrow> 'a list" where
  "sort_values_desc k xs = sort_key (\<lambda>x. - k x) xs"

text \<open>\<^verbatim>\<open>Series.value_counts()\<close>: one entry per distinct value with the number of its
  occurrences, most frequent first.\<close>

definition value_counts :: "'a list \<Rightarrow> ('a \<times> nat) list" where
  "value_counts xs =
     sort_values_desc (\<lambda>(k, c). of_nat c) (map (\<lambda>k. (k, count_list xs k)) (unique xs))"

text \<open>\<^verbatim>\<open>freq.merge(skills, on="skill_abr", how="left")\<close>: every row of the left table
  is kept, once per matching catalog row, and once with a missing name when none matches.\<close>

definition merge_left ::
  "(string \<times> nat \<times> rat) list \<Rightarrow> (string \<times> string) list \<Rightarrow>
   (string \<times> nat \<times> rat \<times> string option) list" where
  "merge_left freq sk =
     concat (map (\<lambda>(abr, c, p).
        (case filter (\<lambda>(a, n). a = abr) sk of
           [] \<Rightarrow> [(abr, c, p, None)]
         | ms \<Rightarrow> map (\<lambda>(a, n). (abr, c, p, Some n)) ms)) freq)"

text \<open>The first line of the function,
  \<^verbatim>\<open>job_roles.loc[job_roles.role == role, "job_id"].unique()\<close>, and the third,
  \<^verbatim>\<open>job_skills[job_skills.job_id.isin(job_ids)]\<close>.\<close>

definition role_job_ids :: "tables \<Rightarrow> string \<Rightarrow> int list" where
  "role_job_ids t rl = unique (map fst (filter (\<lambda>(j, r). r = rl) (job_roles t)))"

definition role_job_skills :: "tables \<Rightarrow> string \<Rightarrow> (int \<times> string) list" where
  "role_job_skills t rl = filter (\<lambda>(j, s). j \<in> set (role_job_ids t rl)) (job_skills t)"

definition build_role_skill_profile :: "tables \<Rightarrow> string \<Rightarrow> int \<Rightarrow> rat \<Rightarrow> dataframe" where
  "build_role_skill_profile t rl min_jobs required_pct =
     (let job_ids = role_job_ids t rl in
      if length job_ids = 0 then EmptyFrame
      else
        let js = role_job_skills t rl;
            freq = value_counts (map snd js);
            freq = map (\<lambda>(abr, c). (abr, c, fl (of_nat c / of_nat (length job_ids)))) freq;
            freq = merge_left freq (skills t);
            freq = map (\<lambda>(abr, c, p, n).
                     \<lparr>skill_abr = abr, count = c, pct_jobs = p, skill_name = n,
                      required = (p \<ge> required_pct), role = rl\<rparr>) freq
        in Frame (sort_values_desc pct_jobs freq))"

text \<open>\<^verbatim>\<open>role_profiles = {r: build_role_skill_profile(r) for r in ROLE_KEYWORDS}\<close> is
  defined after the role configuration below; the defaults are \<open>min_jobs = 50\<close> and
  \<open>required_pct = 0.30\<close>, the double \<open>fl (3 / 10)\<close>.\<close>

subsection \<open>Characters and strings\<close>

definition lower_char :: "char \<Rightarrow> char" where
  "lower_char c =
     (let n = (of_char c :: nat) in if 65 \<le> n \<and> n \<le> 90 then char_of (n + 32) else c)"

text \<open>\<^verbatim>\<open>str.lower()\<close>\<close>

definition lower :: "string \<Rightarrow> string" where
  "lower s = map lower_char s"




text \<open>\<^verbatim>\<open>kw in s\<close> on strings: \<open>kw\<close> starts at some position of \<open>s\<close>.\<close>

fun py_in :: "string \<Rightarrow> string \<Rightarrow> bool" where
  "py_in kw [] = (kw = [])"
| "py_in kw (c # cs) = (take (length kw) (c # cs) = kw \<or> py_in kw cs)"

text \<open>The same relation as the specification words it: \<open>kw\<close> is a substring of \<open>s\<close>.\<close>

definition is_substring :: "string \<Rightarrow> string \<Rightarrow> bool" where
  "is_substring kw s = (\<exists>pre suf. s = pre @ kw @ suf)"

subsection \<open>Industry to role classification\<close>

definition ROLE_KEYWORDS :: "(string \<times> string list) list" where
  "ROLE_KEYWORDS =
     [(''DATA_ANALYST'', [''data'', ''analytics'']),
      (''ML_ENGINEER'', [''software'', ''technology'', ''security'']),
      (''NETWORK_ADMIN'', [''network'', ''telecommunications'', ''it system'']),
      (''FRONTEND_DEV'', [''internet'', ''software'', ''web'']),
      (''IT_SUPPORT'', [''consult'', ''it services'', ''services''])]"

text \<open>The values a cell of \<^verbatim>\<open>industry_name\<close> can hold, and \<^verbatim>\<open>str()\<close> of each.
  A cell that was empty in the CSV file is the float NaN.\<close>

datatype py_value = PyStr string | PyNone | PyNaN | PyBool bool | PyInt int

fun nat_digits :: "nat \<Rightarrow> string" where
  "nat_digits n =
     (if n < 10 then [char_of (48 + n)] else nat_digits (n div 10) @ [char_of (48 + n mod 10)])"

fun py_str :: "py_value \<Rightarrow> string" where
  "py_str (PyStr s) = s"
| "py_str PyNone = ''None''"
| "py_str PyNaN = ''nan''"
| "py_str (PyBool b) = (if b then ''True'' else ''False'')"
| "py_str (PyInt i) = (if i < 0 then CHR ''-'' # nat_digits (nat (- i)) else nat_digits (nat i))"

text \<open>The loop over \<^verbatim>\<open>ROLE_KEYWORDS.items()\<close>, with the list \<open>roles\<close> it appends to.\<close>

fun assign_loop :: "(string \<times> string list) list \<Rightarrow> string \<Rightarrow> string list \<Rightarrow> string list" where
  "assign_loop [] name_l roles = roles"
| "assign_loop ((rl, kws) # items) name_l roles =
     assign_loop items name_l
       (if list_ex (\<lambda>kw. py_in kw name_l) kws then roles @ [rl] else roles)"

definition assign_role_from_industry :: "py_value \<Rightarrow> string list" where
  "assign_role_from_industry industry_name =
     (let name_l = lower (py_str industry_name) in assign_loop ROLE_KEYWORDS name_l [])"


subsection \<open>Resume skill extraction\<close>












subsection \<open>Fit score and fit report\<close>

text \<open>The loop \<^verbatim>\<open>for s in resume_skills\<close> with its accumulator \<open>score\<close>. The argument
  is the sequence the iteration yields: for a Python set, its elements once each.\<close>

fun score_loop :: "string list \<Rightarrow> string set \<Rightarrow> string set \<Rightarrow> rat \<Rightarrow> rat \<Rightarrow> rat" where
  "score_loop [] req opt required_weight score = score"
| "score_loop (s # ss) req opt required_weight score =
     score_loop ss req opt required_weight
       (if s \<in> req then fl (score + required_weight)
        else if s \<in> opt then fl (score + 1) else score)"

definition fit_score :: "string list \<Rightarrow> dataframe \<Rightarrow> rat \<Rightarrow> py_error + rat" where
  "fit_score resume_skills role_profile required_weight =
     (case role_profile of
        EmptyFrame \<Rightarrow> Inl AttributeError
      | Frame rs \<Rightarrow>
          (let req = set (map skill_abr (filter required rs));
               opt = set (map skill_abr (filter (\<lambda>r. \<not> required r) rs));
               denom = fl (fl (required_weight * of_nat (card req)) + of_nat (card opt));
               score = score_loop resume_skills req opt required_weight 0
           in Inr (if denom \<noteq> 0 then fl (score / denom) else 0)))"

text \<open>What one element of \<open>resume_skills\<close> adds to the score in that loop.\<close>

definition weight_of :: "string set \<Rightarrow> string set \<Rightarrow> rat \<Rightarrow> string \<Rightarrow> rat" where
  "weight_of req opt w s = (if s \<in> req then w else if s \<in> opt then 1 else 0)"




section \<open>Auxiliary facts\<close>

subsection \<open>Rounding\<close>

lemma round_half_even_of_int [simp]: "round_half_even (of_int k) = k"
  by (simp add: round_half_even_def)

lemma round_half_even_ge: "of_int k \<le> y \<Longrightarrow> k \<le> round_half_even y"
proof -
  assume "of_int k \<le> y"
  then have "k \<le> \<lfloor>y\<rfloor>" by (simp add: le_floor_iff)
  then show ?thesis by (auto simp: round_half_even_def Let_def)
qed

lemma round_half_even_le: "y \<le> of_int k \<Longrightarrow> round_half_even y \<le> k"
proof (cases "y = of_int k")
  case True
  then show ?thesis by simp
next
  case False
  assume "y \<le> of_int k"
  with False have "y < of_int k" by simp
  then have "\<lfloor>y\<rfloor> < k" by (simp add: floor_less_iff)
  then show ?thesis by (auto simp: round_half_even_def Let_def)
qed


lemma two_powi_pos [simp]: "0 < (2 :: rat) powi e"
  by simp

lemma two_powi_Suc: "(2 :: rat) powi (e + 1) = 2 * 2 powi e"
  by (simp add: power_int_add)

lemma two_powi_mono: "a \<le> b \<Longrightarrow> (2 :: rat) powi a \<le> 2 powi b"
  by (rule power_int_increasing) simp_all

lemma two_powi_strict_mono: "a < b \<Longrightarrow> (2 :: rat) powi a < 2 powi b"
  by (rule power_int_strict_increasing) simp_all

lemma bitlen_window:
  assumes "0 < p"
  shows "(2 :: rat) powi (bitlen p - 1) \<le> of_int p" and "of_int p < (2 :: rat) powi bitlen p"
proof -
  from assms have b1: "1 \<le> bitlen p"
    by (metis bitlen_eq_zero_iff bitlen_nonneg linorder_not_less zle_add1_eq_le add_0 order_le_less)
  have lo: "2 ^ nat (bitlen p - 1) \<le> p" and hi: "p < 2 ^ nat (bitlen p)"
    using bitlen_bounds [OF assms] by simp_all
  have "(2 :: rat) powi (bitlen p - 1) = of_int (2 ^ nat (bitlen p - 1))"
    using b1 by (simp add: power_int_nonneg_exp)
  also have "\<dots> \<le> of_int p"
    using lo by (simp only: of_int_le_iff)
  finally show "(2 :: rat) powi (bitlen p - 1) \<le> of_int p" .
  have "(of_int p :: rat) < of_int (2 ^ nat (bitlen p))"
    using hi by (simp only: of_int_less_iff)
  also have "\<dots> = 2 powi bitlen p"
    using b1 by (simp add: power_int_nonneg_exp)
  finally show "of_int p < (2 :: rat) powi bitlen p" .
qed

lemma binade_bounds:
  assumes "x \<noteq> 0"
  shows "2 powi binade x \<le> \<bar>x\<bar>" and "\<bar>x\<bar> < 2 powi (binade x + 1)"
proof -
  obtain p q where pq: "quotient_of \<bar>x\<bar> = (p, q)"
    by (cases "quotient_of \<bar>x\<bar>") auto
  then have q: "0 < q" by (rule quotient_of_denom_pos)
  have x: "\<bar>x\<bar> = of_int p / of_int q"
    using pq by (rule quotient_of_div)
  have "0 < \<bar>x\<bar>" using assms by simp
  with x q have p: "0 < p"
    by (simp add: zero_less_divide_iff)
  let ?e = "bitlen p - bitlen q"
  note P = bitlen_window [OF p]
  note Q = bitlen_window [OF q]
  have qpos: "0 < (of_int q :: rat)" using q by simp
  have lo: "2 powi (?e - 1) \<le> \<bar>x\<bar>"
  proof -
    have "(2 :: rat) powi (?e - 1) * of_int q \<le> 2 powi (?e - 1) * 2 powi bitlen q"
      using Q(2) by (intro mult_left_mono) simp_all
    also have "\<dots> = 2 powi (bitlen p - 1)"
      by (simp add: power_int_add [symmetric])
    also have "\<dots> \<le> of_int p" by (rule P(1))
    finally show ?thesis
      using qpos by (simp add: x pos_le_divide_eq)
  qed
  have hi: "\<bar>x\<bar> < 2 powi (?e + 1)"
  proof -
    have "(of_int p :: rat) < 2 powi bitlen p" by (rule P(2))
    also have "\<dots> = 2 powi (?e + 1) * 2 powi (bitlen q - 1)"
      by (simp add: power_int_add [symmetric])
    also have "\<dots> \<le> 2 powi (?e + 1) * of_int q"
      using Q(1) by (intro mult_left_mono) simp_all
    finally show ?thesis
      using qpos by (simp add: x pos_divide_less_eq)
  qed
  have b: "binade x = (if \<bar>x\<bar> < 2 powi ?e then ?e - 1 else ?e)"
    by (simp add: binade_def pq Let_def)
  show "2 powi binade x \<le> \<bar>x\<bar>"
    using lo by (simp add: b)
  show "\<bar>x\<bar> < 2 powi (binade x + 1)"
    using hi by (simp add: b)
qed

lemma binade_unique:
  assumes "2 powi e \<le> \<bar>x\<bar>" and "\<bar>x\<bar> < 2 powi (e + 1)"
  shows "binade x = e"
proof -
  have "0 < \<bar>x\<bar>"
    using assms(1) two_powi_pos [of e] by (rule less_le_trans [rotated])
  then have nz: "x \<noteq> 0" by simp
  note B = binade_bounds [OF nz]
  have "\<not> binade x < e"
  proof
    assume "binade x < e"
    then have "(2 :: rat) powi (binade x + 1) \<le> 2 powi e"
      by (intro two_powi_mono) simp
    with B(2) assms(1) show False by simp
  qed
  moreover have "\<not> e < binade x"
  proof
    assume "e < binade x"
    then have "(2 :: rat) powi (e + 1) \<le> 2 powi binade x"
      by (intro two_powi_mono) simp
    with B(1) assms(2) show False by simp
  qed
  ultimately show ?thesis by simp
qed


lemma fl_0 [simp]: "fl 0 = 0"
  by (simp add: fl_def)

lemma fl_pos_bounds:
  assumes "0 < x"
  shows "2 powi binade x \<le> fl x" and "fl x \<le> 2 powi (binade x + 1)"
proof -
  let ?e = "binade x"
  let ?u = "(2 :: rat) powi (?e - 52)"
  have nz: "x \<noteq> 0" using assms by simp
  have ax: "\<bar>x\<bar> = x" using assms by simp
  note B = binade_bounds [OF nz, unfolded ax]
  have u: "0 < ?u" by simp
  have lo_eq: "(2 :: rat) powi ?e = of_int (2 ^ 52) * ?u"
    by (simp add: power_int_diff)
  have hi_eq: "(2 :: rat) powi (?e + 1) = of_int (2 ^ 53) * ?u"
    by (simp add: power_int_diff power_int_add)
  have "of_int (2 ^ 52) \<le> x / ?u"
    using B(1) u unfolding lo_eq by (simp add: pos_le_divide_eq)
  then have m_lo: "2 ^ 52 \<le> round_half_even (x / ?u)"
    by (rule round_half_even_ge)
  have "x / ?u \<le> of_int (2 ^ 53)"
    using B(2) u unfolding hi_eq by (simp add: pos_divide_le_eq)
  then have m_hi: "round_half_even (x / ?u) \<le> 2 ^ 53"
    by (rule round_half_even_le)
  have fl: "fl x = of_int (round_half_even (x / ?u)) * ?u"
    using nz by (simp add: fl_def Let_def)
  have "(of_int (2 ^ 52) :: rat) \<le> of_int (round_half_even (x / ?u))"
    using m_lo by (simp only: of_int_le_iff)
  then show "2 powi ?e \<le> fl x"
    unfolding fl lo_eq using u by (intro mult_right_mono) simp_all
  have "(of_int (round_half_even (x / ?u)) :: rat) \<le> of_int (2 ^ 53)"
    using m_hi by (simp only: of_int_le_iff)
  then show "fl x \<le> 2 powi (?e + 1)"
    unfolding fl hi_eq using u by (intro mult_right_mono) simp_all
qed

lemma fl_pos: "0 < x \<Longrightarrow> 0 < fl x"
  using fl_pos_bounds(1) [of x] two_powi_pos [of "binade x"] by (rule_tac less_le_trans)

lemma fl_of_int_exact:
  assumes "0 < k" and "k < 2 ^ 53"
  shows "fl (of_int k) = of_int k"
proof -
  let ?x = "of_int k :: rat"
  let ?e = "binade ?x"
  have nz: "?x \<noteq> 0" using assms by simp
  have ax: "\<bar>?x\<bar> = ?x" using assms by simp
  note B = binade_bounds [OF nz, unfolded ax]
  have e0: "0 \<le> ?e"
  proof (rule ccontr)
    assume "\<not> 0 \<le> ?e"
    then have "(2 :: rat) powi (?e + 1) \<le> 2 powi 0"
      by (intro two_powi_mono) simp
    with B(2) have "?x < 1" by simp
    with assms(1) show False by simp
  qed
  have e52: "?e \<le> 52"
  proof (rule ccontr)
    assume "\<not> ?e \<le> 52"
    then have "(2 :: rat) powi 53 \<le> 2 powi ?e"
      by (intro two_powi_mono) simp
    with B(1) have "(2 :: rat) powi 53 \<le> ?x" by simp
    then have "(of_int (2 ^ 53) :: rat) \<le> of_int k" by simp
    then have "2 ^ 53 \<le> k" by (simp only: of_int_le_iff)
    with assms(2) show False by simp
  qed
  define n where "n = nat (52 - ?e)"
  have u: "(2 :: rat) powi (?e - 52) = 1 / 2 ^ n"
  proof -
    have "?e - 52 = - int n" using e52 by (simp add: n_def)
    then show ?thesis by (simp add: power_int_minus_divide)
  qed
  have "?x / (2 powi (?e - 52)) = of_int (k * 2 ^ n)"
    by (simp add: u)
  then have "round_half_even (?x / (2 powi (?e - 52))) = k * 2 ^ n"
    by (simp only: round_half_even_of_int)
  then show ?thesis
    using nz by (simp add: fl_def u Let_def)
qed

lemma fl_of_nat_exact: "n < 2 ^ 53 \<Longrightarrow> fl (of_nat n) = of_nat n"
proof (cases "n = 0")
  case True
  then show ?thesis by simp
next
  case False
  assume "n < 2 ^ 53"
  then have "int n < 2 ^ 53" by (metis of_nat_less_iff of_nat_numeral of_nat_power)
  with False have "fl (of_int (int n)) = of_int (int n)"
    by (intro fl_of_int_exact) simp_all
  then show ?thesis by simp
qed

lemma fl_le_1:
  assumes "0 < x" and "x \<le> 1"
  shows "fl x \<le> 1"
proof (cases "x = 1")
  case True
  have "fl (of_int 1) = of_int 1"
    by (rule fl_of_int_exact) simp_all
  then show ?thesis using True by simp
next
  case False
  with assms have x1: "x < 1" by simp
  have nz: "x \<noteq> 0" using assms by simp
  have "2 powi binade x \<le> x"
    using binade_bounds(1) [OF nz] assms by simp
  with x1 have "(2 :: rat) powi binade x < 2 powi 0" by simp
  then have "binade x < 0"
    by (metis linorder_not_le two_powi_mono leD)
  then have "(2 :: rat) powi (binade x + 1) \<le> 2 powi 0"
    by (intro two_powi_mono) simp
  with fl_pos_bounds(2) [OF assms(1)] show ?thesis by simp
qed

lemma fl_ratio_less_1:
  fixes a b :: nat
  assumes "a < b" and "b < 2 ^ 53"
  shows "fl (of_nat a / of_nat b) < 1"
proof (cases "a = 0")
  case True
  then show ?thesis by simp
next
  case False
  let ?x = "of_nat a / of_nat b :: rat"
  let ?e = "binade ?x"
  have bpos: "0 < (of_nat b :: rat)" using assms(1) by simp
  have xpos: "0 < ?x" using False bpos by simp
  have x1: "?x < 1" using assms(1) bpos by simp
  have nz: "?x \<noteq> 0" using xpos by (metis less_irrefl)
  have ax: "\<bar>?x\<bar> = ?x" using xpos by (metis abs_of_pos)
  note B = binade_bounds [OF nz, unfolded ax]
  from B(1) x1 have "(2 :: rat) powi ?e < 2 powi 0" by simp
  then have eneg: "?e < 0"
    by (metis linorder_not_le two_powi_mono leD)
  show ?thesis
  proof (cases "?e = - 1")
    case True
    have u: "(2 :: rat) powi (?e - 52) = 1 / 2 ^ 53"
      unfolding True by (simp add: power_int_minus_divide)
    have "int b \<le> 2 ^ 53 * (int b - int a)"
    proof -
      have "1 \<le> int b - int a" using assms(1) by simp
      then have "2 ^ 53 * 1 \<le> 2 ^ 53 * (int b - int a)"
        by (intro mult_left_mono) simp_all
      moreover have "int b < 2 ^ 53"
        using assms(2) by (metis of_nat_less_iff of_nat_numeral of_nat_power)
      ultimately show ?thesis by simp
    qed
    then have "2 ^ 53 * int a \<le> (2 ^ 53 - 1) * int b"
      by (simp add: algebra_simps)
    then have "(of_int (2 ^ 53 * int a) :: rat) \<le> of_int ((2 ^ 53 - 1) * int b)"
      by (simp only: of_int_le_iff)
    then have "?x * 2 ^ 53 \<le> of_int (2 ^ 53 - 1)"
      using bpos by (simp add: pos_divide_le_eq algebra_simps)
    then have "round_half_even (?x / (2 powi (?e - 52))) \<le> 2 ^ 53 - 1"
      unfolding u by (intro round_half_even_le) simp
    then have "(of_int (round_half_even (?x / (2 powi (?e - 52)))) :: rat) \<le> of_int (2 ^ 53 - 1)"
      by (simp only: of_int_le_iff)
    then have "fl ?x \<le> of_int (2 ^ 53 - 1) * (1 / 2 ^ 53)"
      using nz unfolding fl_def u Let_def by (simp only: if_False) (intro mult_right_mono, simp_all)
    also have "\<dots> < 1" by simp
    finally show ?thesis .
  next
    case False
    with eneg have "?e + 1 \<le> - 1" by simp
    then have "(2 :: rat) powi (?e + 1) \<le> 2 powi (- 1)"
      by (rule two_powi_mono)
    with fl_pos_bounds(2) [OF xpos] have "fl ?x \<le> 2 powi (- 1)" by simp
    also have "\<dots> < (1 :: rat)" by (simp add: power_int_minus_divide)
    finally show ?thesis .
  qed
qed

subsection \<open>Sorting, counting and merging\<close>

lemma set_unique [simp]: "set (unique xs) = set xs"
  by (induction xs rule: unique.induct) auto

lemma distinct_unique [simp]: "distinct (unique xs)"
  by (induction xs rule: unique.induct) auto

lemma set_sort_values_desc [simp]: "set (sort_values_desc k xs) = set xs"
  by (simp add: sort_values_desc_def)


lemma insort_key_map: "insort_key f (g x) (map g xs) = map g (insort_key (\<lambda>y. f (g y)) x xs)"
  by (induction xs) auto

lemma sort_key_map: "sort_key f (map g xs) = map g (sort_key (\<lambda>y. f (g y)) xs)"
  by (induction xs) (auto simp: insort_key_map)

lemma sort_values_desc_map:
  "sort_values_desc k (map g xs) = map g (sort_values_desc (\<lambda>y. k (g y)) xs)"
  by (simp add: sort_values_desc_def sort_key_map)

lemma set_value_counts: "set (value_counts xs) = (\<lambda>k. (k, count_list xs k)) ` set xs"
  by (simp add: value_counts_def)

lemma set_name_rows:
  "set (case filter (\<lambda>(a, n). a = abr) sk of
          [] \<Rightarrow> [(abr, c, p, None)]
        | ms \<Rightarrow> map (\<lambda>(a, n). (abr, c, p, Some n)) ms) =
   (if abr \<in> fst ` set sk then {(abr, c, p, Some n) | n. (abr, n) \<in> set sk}
    else {(abr, c, p, None)})"
proof (cases "filter (\<lambda>(a, n). a = abr) sk")
  case Nil
  then have "abr \<notin> fst ` set sk"
    by (auto simp: filter_empty_conv)
  with Nil show ?thesis by simp
next
  case (Cons m ms)
  have "set (filter (\<lambda>(a, n). a = abr) sk) = {(a, n). (a, n) \<in> set sk \<and> a = abr}"
    by auto
  with Cons have eq: "set (m # ms) = {(a, n). (a, n) \<in> set sk \<and> a = abr}"
    by simp
  then have "m \<in> {(a, n). (a, n) \<in> set sk \<and> a = abr}"
    by (metis list.set_intros(1))
  then have mem: "abr \<in> fst ` set sk"
    by force
  have "(\<lambda>(a, n). (abr, c, p, Some n)) ` set (m # ms) = {(abr, c, p, Some n) | n. (abr, n) \<in> set sk}"
    unfolding eq by force
  with Cons mem show ?thesis by simp
qed

lemma set_merge_left:
  "set (merge_left freq sk) =
     (\<Union>(abr, c, p) \<in> set freq.
        if abr \<in> fst ` set sk then {(abr, c, p, Some n) | n. (abr, n) \<in> set sk}
        else {(abr, c, p, None)})"
proof -
  have "set (merge_left freq sk) =
     (\<Union>x \<in> set freq. case x of (abr, c, p) \<Rightarrow>
        set (case filter (\<lambda>(a, n). a = abr) sk of
          [] \<Rightarrow> [(abr, c, p, None)]
        | ms \<Rightarrow> map (\<lambda>(a, n). (abr, c, p, Some n)) ms))"
    unfolding merge_left_def by (auto split: prod.splits)
  then show ?thesis
    by (simp only: set_name_rows)
qed


subsection \<open>The rows of a built profile\<close>

lemma profile_rows:
  "role_job_ids t rl \<noteq> [] \<Longrightarrow>
   rows_of (build_role_skill_profile t rl mj rp) =
     map (\<lambda>(abr, c, p, n). \<lparr>skill_abr = abr, count = c, pct_jobs = p, skill_name = n,
                      required = (p \<ge> rp), role = rl\<rparr>)
       (sort_values_desc (\<lambda>(abr, c, p, n). p)
         (merge_left
           (map (\<lambda>(abr, c). (abr, c, fl (of_nat c / of_nat (length (role_job_ids t rl)))))
              (value_counts (map snd (role_job_skills t rl))))
           (skills t)))"
  by (simp add: build_role_skill_profile_def Let_def sort_values_desc_map case_prod_unfold)

lemma profile_rows_empty:
  "role_job_ids t rl = [] \<Longrightarrow> build_role_skill_profile t rl mj rp = EmptyFrame"
  by (simp add: build_role_skill_profile_def)

lemma in_merge_left:
  "(abr, c, p, n) \<in> set (merge_left freq sk) \<longleftrightarrow>
     (abr, c, p) \<in> set freq \<and>
     (if abr \<in> fst ` set sk then \<exists>nm. (abr, nm) \<in> set sk \<and> n = Some nm else n = None)"
proof -
  let ?F = "\<lambda>a c p. if a \<in> fst ` set sk then {(a, c, p, Some n) | n. (a, n) \<in> set sk}
                    else {(a, c, p, None :: string option)}"
  have same: "(abr, c, p, n) \<in> ?F a c' p' \<Longrightarrow> a = abr \<and> c' = c \<and> p' = p" for a c' p'
    by (simp split: if_splits)
  have "(abr, c, p, n) \<in> set (merge_left freq sk) \<longleftrightarrow>
          (\<exists>a c' p'. (a, c', p') \<in> set freq \<and> (abr, c, p, n) \<in> ?F a c' p')"
    unfolding set_merge_left by blast
  also have "\<dots> \<longleftrightarrow> (abr, c, p) \<in> set freq \<and> (abr, c, p, n) \<in> ?F abr c p"
    using same by blast
  also have "(abr, c, p, n) \<in> ?F abr c p \<longleftrightarrow>
     (if abr \<in> fst ` set sk then \<exists>nm. (abr, nm) \<in> set sk \<and> n = Some nm else n = None)"
    by auto
  finally show ?thesis .
qed

lemma in_pct_counts:
  "(abr, c, p) \<in> set (map (\<lambda>(abr, c). (abr, c, fl (of_nat c / (d :: rat)))) (value_counts xs)) \<longleftrightarrow>
     abr \<in> set xs \<and> c = count_list xs abr \<and> p = fl (of_nat (count_list xs abr) / d)"
  by (auto simp: set_value_counts)

lemma profile_row_iff:
  "r \<in> set (rows_of (build_role_skill_profile t rl mj rp)) \<longleftrightarrow>
     role_job_ids t rl \<noteq> [] \<and>
     (\<exists>abr n. abr \<in> snd ` set (role_job_skills t rl) \<and>
        (if abr \<in> fst ` set (skills t) then \<exists>nm. (abr, nm) \<in> set (skills t) \<and> n = Some nm
         else n = None) \<and>
        r = \<lparr>skill_abr = abr, count = count_list (map snd (role_job_skills t rl)) abr,
             pct_jobs = fl (of_nat (count_list (map snd (role_job_skills t rl)) abr) /
                        of_nat (length (role_job_ids t rl))),
             skill_name = n,
             required = (rp \<le> fl (of_nat (count_list (map snd (role_job_skills t rl)) abr) /
                        of_nat (length (role_job_ids t rl)))),
             role = rl\<rparr>)"
  (is "?L \<longleftrightarrow> ?J \<and> ?R")
proof (cases "role_job_ids t rl = []")
  case True
  then show ?thesis by (simp add: profile_rows_empty)
next
  case False
  let ?M = "merge_left
           (map (\<lambda>(abr, c). (abr, c, fl (of_nat c / of_nat (length (role_job_ids t rl)))))
              (value_counts (map snd (role_job_skills t rl))))
           (skills t)"
  let ?mk = "\<lambda>(abr, c, p, n). \<lparr>skill_abr = abr, count = c, pct_jobs = p, skill_name = n,
                      required = (p \<ge> rp), role = rl\<rparr>"
  have "?L \<longleftrightarrow> (\<exists>abr c p n. (abr, c, p, n) \<in> set ?M \<and> r = ?mk (abr, c, p, n))"
    unfolding profile_rows [OF False] by (force simp: image_iff)
  also have "\<dots> \<longleftrightarrow> ?R"
    unfolding in_merge_left in_pct_counts by auto
  finally show ?thesis using False by simp
qed

lemma profile_rowD:
  assumes "r \<in> set (rows_of (build_role_skill_profile t rl mj rp))"
  shows "role_job_ids t rl \<noteq> []"
    and "skill_abr r \<in> snd ` set (role_job_skills t rl)"
    and "count r = count_list (map snd (role_job_skills t rl)) (skill_abr r)"
    and "pct_jobs r = fl (of_nat (count r) / of_nat (length (role_job_ids t rl)))"
    and "required r \<longleftrightarrow> rp \<le> pct_jobs r"
    and "role r = rl"
    and "skill_abr r \<notin> fst ` set (skills t) \<Longrightarrow> skill_name r = None"
    and "skill_abr r \<in> fst ` set (skills t) \<Longrightarrow>
           \<exists>nm. (skill_abr r, nm) \<in> set (skills t) \<and> skill_name r = Some nm"
proof -
  from assms obtain abr n where ne: "role_job_ids t rl \<noteq> []"
    and abr: "abr \<in> snd ` set (role_job_skills t rl)"
    and n: "if abr \<in> fst ` set (skills t) then \<exists>nm. (abr, nm) \<in> set (skills t) \<and> n = Some nm
         else n = None"
    and r: "r = \<lparr>skill_abr = abr, count = count_list (map snd (role_job_skills t rl)) abr,
             pct_jobs = fl (of_nat (count_list (map snd (role_job_skills t rl)) abr) /
                        of_nat (length (role_job_ids t rl))),
             skill_name = n,
             required = (rp \<le> fl (of_nat (count_list (map snd (role_job_skills t rl)) abr) /
                        of_nat (length (role_job_ids t rl)))),
             role = rl\<rparr>"
    unfolding profile_row_iff by blast
  show "role_job_ids t rl \<noteq> []" by (rule ne)
  show "skill_abr r \<in> snd ` set (role_job_skills t rl)" using abr by (simp add: r)
  show "count r = count_list (map snd (role_job_skills t rl)) (skill_abr r)" by (simp add: r)
  show "pct_jobs r = fl (of_nat (count r) / of_nat (length (role_job_ids t rl)))" by (simp add: r)
  show "required r \<longleftrightarrow> rp \<le> pct_jobs r" by (simp add: r)
  show "role r = rl" by (simp add: r)
  show "skill_name r = None" if "skill_abr r \<notin> fst ` set (skills t)"
    using that n by (simp add: r)
  show "\<exists>nm. (skill_abr r, nm) \<in> set (skills t) \<and> skill_name r = Some nm"
    if "skill_abr r \<in> fst ` set (skills t)"
    using that n by (simp add: r)
qed

lemma profile_rowI:
  assumes "role_job_ids t rl \<noteq> []" and "abr \<in> snd ` set (role_job_skills t rl)"
    and "if abr \<in> fst ` set (skills t) then \<exists>nm. (abr, nm) \<in> set (skills t) \<and> n = Some nm
         else n = None"
  shows "\<lparr>skill_abr = abr, count = count_list (map snd (role_job_skills t rl)) abr,
             pct_jobs = fl (of_nat (count_list (map snd (role_job_skills t rl)) abr) /
                        of_nat (length (role_job_ids t rl))),
             skill_name = n,
             required = (rp \<le> fl (of_nat (count_list (map snd (role_job_skills t rl)) abr) /
                        of_nat (length (role_job_ids t rl)))),
             role = rl\<rparr> \<in> set (rows_of (build_role_skill_profile t rl mj rp))"
  unfolding profile_row_iff using assms by blast

lemma count_list_map_snd:
  "count_list (map snd xs) s = length (filter (\<lambda>x. snd x = s) xs)"
  by (induction xs) auto

lemma role_job_ids_distinct: "distinct (role_job_ids t rl)"
  by (simp add: role_job_ids_def)

lemma count_le_jobs:
  assumes "distinct (role_job_skills t rl)"
  shows "count_list (map snd (role_job_skills t rl)) s \<le> length (role_job_ids t rl)"
proof -
  let ?L = "filter (\<lambda>x. snd x = s) (role_job_skills t rl)"
  have dL: "distinct ?L"
    using assms by simp
  have "inj_on fst (set ?L)"
    by (auto simp: inj_on_def)
  with dL have dm: "distinct (map fst ?L)"
    by (simp add: distinct_map)
  have sub: "set (map fst ?L) \<subseteq> set (role_job_ids t rl)"
    by (auto simp: role_job_skills_def)
  have "length ?L = card (set (map fst ?L))"
    using dm by (metis distinct_card length_map)
  also have "\<dots> \<le> card (set (role_job_ids t rl))"
    using sub by (simp add: card_mono)
  also have "\<dots> = length (role_job_ids t rl)"
    by (simp add: distinct_card role_job_ids_distinct)
  finally show ?thesis
    by (simp add: count_list_map_snd)
qed

subsection \<open>The score as a sum\<close>

lemma weight_of_nonneg: "0 \<le> w \<Longrightarrow> 0 \<le> weight_of req opt w s"
  by (simp add: weight_of_def)

lemma fl_add_nat_exact:
  assumes "(of_nat a :: rat) + of_nat b < 2 ^ 53"
  shows "fl (of_nat a + of_nat b) = of_nat a + of_nat b"
proof -
  have "(of_nat (a + b) :: rat) < of_nat (2 ^ 53)"
    using assms by simp
  then have "a + b < 2 ^ 53"
    by (simp only: of_nat_less_iff)
  then have "fl (of_nat (a + b)) = of_nat (a + b)"
    by (rule fl_of_nat_exact)
  then show ?thesis by simp
qed

text \<open>With a whole-number weight and a total below \<open>2\<^sup>5\<^sup>3\<close> no addition of the loop rounds.\<close>

lemma score_loop_exact:
  assumes "w = of_nat k"
  shows "acc = of_nat a \<Longrightarrow> acc + sum_list (map (weight_of req opt w) rs) < 2 ^ 53 \<Longrightarrow>
         score_loop rs req opt w acc = acc + sum_list (map (weight_of req opt w) rs)"
proof (induction rs arbitrary: acc a)
  case Nil
  then show ?case by simp
next
  case (Cons s ss)
  let ?g = "weight_of req opt w"
  have w0: "0 \<le> w" using assms by simp
  have rest: "0 \<le> sum_list (map ?g ss)"
    using w0 by (intro sum_list_nonneg) (auto simp: weight_of_nonneg)
  have total: "acc + ?g s + sum_list (map ?g ss) < 2 ^ 53"
    using Cons.prems(2) by (simp add: add.assoc)
  with rest have step: "acc + ?g s < 2 ^ 53" by simp
  consider (req) "s \<in> req" | (opt) "s \<notin> req" "s \<in> opt" | (none) "s \<notin> req" "s \<notin> opt"
    by blast
  then show ?case
  proof cases
    case req
    then have g: "?g s = of_nat k" by (simp add: weight_of_def assms)
    have "fl (of_nat a + of_nat k) = of_nat a + of_nat k"
      using step by (intro fl_add_nat_exact) (simp add: g Cons.prems(1))
    then have new: "fl (acc + w) = of_nat (a + k)"
      by (simp add: Cons.prems(1) assms)
    have "score_loop ss req opt w (of_nat (a + k)) =
            of_nat (a + k) + sum_list (map ?g ss)"
      using total by (intro Cons.IH [of _ "a + k"]) (simp_all add: g Cons.prems(1))
    then show ?thesis
      using req new by (simp add: g Cons.prems(1))
  next
    case opt
    then have g: "?g s = of_nat 1" by (simp add: weight_of_def)
    have "fl (of_nat a + of_nat 1) = of_nat a + of_nat 1"
      using step by (intro fl_add_nat_exact) (simp add: g Cons.prems(1))
    then have new: "fl (acc + 1) = of_nat (a + 1)"
      by (simp add: Cons.prems(1))
    have "score_loop ss req opt w (of_nat (a + 1)) =
            of_nat (a + 1) + sum_list (map ?g ss)"
      using total by (intro Cons.IH [of _ "a + 1"]) (simp_all add: g Cons.prems(1))
    then show ?thesis
      using opt new by (simp add: g Cons.prems(1))
  next
    case none
    then have g: "?g s = 0" by (simp add: weight_of_def)
    have "score_loop ss req opt w acc = acc + sum_list (map ?g ss)"
      using total Cons.prems(1) by (intro Cons.IH [of _ a]) (simp_all add: g)
    then show ?thesis
      using none by (simp add: g)
  qed
qed

lemma score_loop_set:
  assumes "w = of_nat k" and "distinct rs" and "sum (weight_of req opt w) (set rs) < 2 ^ 53"
  shows "score_loop rs req opt w 0 = sum (weight_of req opt w) (set rs)"
proof -
  have eq: "sum_list (map (weight_of req opt w) rs) = sum (weight_of req opt w) (set rs)"
    using assms(2) by (rule sum_list_distinct_conv_sum_set)
  have "score_loop rs req opt w 0 = 0 + sum_list (map (weight_of req opt w) rs)"
    using assms(1) by (rule score_loop_exact [where a = 0]) (use assms(3) in \<open>simp_all add: eq\<close>)
  then show ?thesis by (simp add: eq)
qed

lemma denom_exact:
  assumes "w = of_nat k" and "k * c + d < 2 ^ 53"
  shows "fl (fl (w * of_nat c) + of_nat d) = w * of_nat c + of_nat d"
proof -
  have "k * c < 2 ^ 53" using assms(2) by simp
  then have "fl (of_nat (k * c)) = of_nat (k * c)"
    by (rule fl_of_nat_exact)
  then have m: "fl (of_nat k * of_nat c) = of_nat k * of_nat c"
    by (simp only: of_nat_mult)
  have "fl (of_nat (k * c + d)) = of_nat (k * c + d)"
    using assms(2) by (rule fl_of_nat_exact)
  then have "fl (of_nat k * of_nat c + of_nat d) = of_nat k * of_nat c + of_nat d"
    by (simp only: of_nat_mult of_nat_add)
  then show ?thesis
    by (simp only: m assms(1))
qed

lemma denom_sum:
  assumes "finite req" "finite opt" "req \<inter> opt = {}"
  shows "w * of_nat (card req) + of_nat (card opt) = sum (weight_of req opt w) (req \<union> opt)"
proof -
  have "sum (weight_of req opt w) (req \<union> opt) =
        sum (weight_of req opt w) req + sum (weight_of req opt w) opt"
    using assms by (simp add: sum.union_disjoint)
  moreover have "sum (weight_of req opt w) req = w * of_nat (card req)"
    by (simp add: weight_of_def)
  moreover have "sum (weight_of req opt w) opt = of_nat (card opt)"
  proof -
    have "sum (weight_of req opt w) opt = sum (\<lambda>s. 1) opt"
      using assms(3) by (intro sum.cong) (auto simp: weight_of_def)
    then show ?thesis by simp
  qed
  ultimately show ?thesis by simp
qed

lemma numer_sum:
  assumes "finite R"
  shows "sum (weight_of req opt w) R = sum (weight_of req opt w) (R \<inter> (req \<union> opt))"
  using assms by (intro sum.mono_neutral_right) (auto simp: weight_of_def)

lemma numer_le_denom:
  assumes "finite req" "finite opt" "req \<inter> opt = {}" "finite R" "0 \<le> w"
  shows "sum (weight_of req opt w) R \<le> w * of_nat (card req) + of_nat (card opt)"
proof -
  have "sum (weight_of req opt w) (R \<inter> (req \<union> opt)) \<le> sum (weight_of req opt w) (req \<union> opt)"
    using assms by (intro sum_mono2) (auto simp: weight_of_def)
  then show ?thesis
    using numer_sum [OF assms(4)] denom_sum [OF assms(1-3)] by simp
qed

lemma numer_eq_denom_iff:
  assumes "finite req" "finite opt" "req \<inter> opt = {}" "finite R" "0 < w"
  shows "sum (weight_of req opt w) R = w * of_nat (card req) + of_nat (card opt)
           \<longleftrightarrow> req \<union> opt \<subseteq> R"
proof -
  let ?g = "weight_of req opt w"
  let ?U = "req \<union> opt"
  have fin: "finite ?U" using assms by simp
  have split: "sum ?g ?U = sum ?g (R \<inter> ?U) + sum ?g (?U - R)"
  proof -
    have "?U = (R \<inter> ?U) \<union> (?U - R)" by blast
    moreover have "(R \<inter> ?U) \<inter> (?U - R) = {}" by blast
    ultimately show ?thesis
      using fin by (metis finite_Diff finite_Int sum.union_disjoint)
  qed
  have pos: "0 < ?g s" if "s \<in> ?U" for s
    using that assms(5) by (auto simp: weight_of_def)
  have zero: "sum ?g (?U - R) = 0 \<longleftrightarrow> ?U - R = {}"
  proof
    assume z: "sum ?g (?U - R) = 0"
    have "\<forall>s \<in> ?U - R. ?g s = 0"
      using z fin pos by (subst (asm) sum_nonneg_eq_0_iff) (auto intro: less_imp_le)
    with pos show "?U - R = {}" by fastforce
  next
    assume e: "?U - R = {}"
    show "sum ?g (?U - R) = 0" unfolding e by simp
  qed
  have "sum ?g R = w * of_nat (card req) + of_nat (card opt) \<longleftrightarrow> sum ?g (R \<inter> ?U) = sum ?g ?U"
    using numer_sum [OF assms(4)] denom_sum [OF assms(1-3)] by simp
  also have "\<dots> \<longleftrightarrow> sum ?g (?U - R) = 0"
    using split by simp
  also have "\<dots> \<longleftrightarrow> ?U \<subseteq> R"
    using zero by blast
  finally show ?thesis .
qed


lemma built_profile_consistent:
  assumes "build_role_skill_profile t rl mj rp = Frame rs"
  shows "skill_abr ` {r \<in> set rs. required r} \<inter> skill_abr ` {r \<in> set rs. \<not> required r} = {}"
proof -
  have rows: "rows_of (build_role_skill_profile t rl mj rp) = rs"
    using assms by simp
  have "required a = required b"
    if "a \<in> set rs" "b \<in> set rs" "skill_abr a = skill_abr b" for a b
  proof -
    from that(1,2) have a: "a \<in> set (rows_of (build_role_skill_profile t rl mj rp))"
      and b: "b \<in> set (rows_of (build_role_skill_profile t rl mj rp))"
      by (simp_all add: rows)
    show ?thesis
      using profile_rowD(3-5) [OF a] profile_rowD(3-5) [OF b] that(3) by simp
  qed
  then show ?thesis by blast
qed

lemma fit_score_consistent:
  fixes rs :: "profile_row list"
  defines "req \<equiv> set (map skill_abr (filter required rs))"
    and "opt \<equiv> set (map skill_abr (filter (\<lambda>r. \<not> required r) rs))"
  assumes disj: "req \<inter> opt = {}" and dist: "distinct resume_skills"
    and w: "w = of_nat k" and k: "0 < k" and small: "k * card req + card opt < 2 ^ 53"
  shows "\<exists>x. fit_score resume_skills (Frame rs) w = Inr x \<and> 0 \<le> x \<and> x \<le> 1 \<and>
           score_loop resume_skills req opt w 0 \<le> w * of_nat (card req) + of_nat (card opt) \<and>
           (rs \<noteq> [] \<longrightarrow> (x = 1 \<longleftrightarrow> skill_abr ` set rs \<subseteq> set resume_skills))"
proof -
  let ?g = "weight_of req opt w"
  let ?R = "set resume_skills"
  define D where "D = k * card req + card opt"
  define N where "N = sum (\<lambda>s. if s \<in> req then k else if s \<in> opt then 1 else 0) ?R"
  have wpos: "0 < w" using w k by simp
  have fin: "finite req" "finite opt" "finite ?R"
    by (simp_all add: req_def opt_def)
  have den: "w * of_nat (card req) + of_nat (card opt) = of_nat D"
    by (simp add: D_def w)
  have "?g s = of_nat (if s \<in> req then k else if s \<in> opt then 1 else 0)" for s
    by (simp add: weight_of_def w)
  then have num: "sum ?g ?R = of_nat N"
    by (simp add: N_def)
  have le: "sum ?g ?R \<le> w * of_nat (card req) + of_nat (card opt)"
    using fin disj wpos by (intro numer_le_denom) simp_all
  then have "(of_nat N :: rat) \<le> of_nat D"
    by (simp only: num den)
  then have ND: "N \<le> D"
    by (simp only: of_nat_le_iff)
  have D53: "D < 2 ^ 53" using small by (simp add: D_def)
  with ND have N53: "N < 2 ^ 53" by simp
  then have "(of_nat N :: rat) < of_nat (2 ^ 53)"
    by (simp only: of_nat_less_iff)
  then have "sum ?g ?R < 2 ^ 53"
    by (simp add: num)
  with w dist have loop: "score_loop resume_skills req opt w 0 = of_nat N"
    unfolding num [symmetric] by (rule score_loop_set)
  have dfl: "fl (fl (w * of_nat (card req)) + of_nat (card opt)) = of_nat D"
    using w small unfolding den [symmetric] by (rule denom_exact)
  define x where "x = (if D \<noteq> 0 then fl (of_nat N / of_nat D) else 0 :: rat)"
  have fs: "fit_score resume_skills (Frame rs) w = Inr x"
    unfolding fit_score_def dataframe.case Let_def req_def [symmetric] opt_def [symmetric]
      loop dfl x_def
    by simp
  have one: "fl (of_nat 1) = of_nat 1"
    by (rule fl_of_nat_exact) simp
  have x_eq: "x = 1" if "N = D" "D \<noteq> 0"
    using that one by (simp add: x_def)
  have x_lt: "x < 1" if "N < D"
  proof -
    from that have "D \<noteq> 0" by simp
    moreover have "fl (of_nat N / of_nat D) < 1"
      using that D53 by (rule fl_ratio_less_1)
    ultimately show ?thesis by (simp add: x_def)
  qed
  have x0: "0 \<le> x"
  proof (cases "N = 0 \<or> D = 0")
    case True
    then show ?thesis by (auto simp: x_def)
  next
    case False
    then have "0 < (of_nat N / of_nat D :: rat)" by simp
    then have "0 < fl (of_nat N / of_nat D)" by (rule fl_pos)
    with False show ?thesis by (simp add: x_def)
  qed
  have x1: "x \<le> 1"
  proof (cases "D = 0")
    case True
    then show ?thesis by (simp add: x_def)
  next
    case False
    show ?thesis
    proof (cases "N = D")
      case True
      with False show ?thesis by (simp add: x_eq)
    next
      case ne: False
      with ND have "N < D" by simp
      then show ?thesis using x_lt by simp
    qed
  qed
  have U: "req \<union> opt = skill_abr ` set rs"
    by (auto simp: req_def opt_def)
  have iff: "x = 1 \<longleftrightarrow> skill_abr ` set rs \<subseteq> ?R" if ne: "rs \<noteq> []"
  proof -
    from ne have "req \<union> opt \<noteq> {}" unfolding U by simp
    then have "0 < card req \<or> 0 < card opt"
      using fin by (metis Un_empty card_gt_0_iff)
    then have Dpos: "D \<noteq> 0"
      using k by (auto simp: D_def)
    have "x = 1 \<longleftrightarrow> N = D"
    proof
      assume "x = 1"
      show "N = D"
      proof (rule ccontr)
        assume "N \<noteq> D"
        with ND have "N < D" by simp
        then have "x < 1" by (rule x_lt)
        with \<open>x = 1\<close> show False by simp
      qed
    next
      assume "N = D"
      then show "x = 1" using Dpos by (rule x_eq)
    qed
    also have "N = D \<longleftrightarrow> sum ?g ?R = w * of_nat (card req) + of_nat (card opt)"
      by (simp only: num den of_nat_eq_iff)
    also have "\<dots> \<longleftrightarrow> req \<union> opt \<subseteq> ?R"
      using fin disj wpos by (intro numer_eq_denom_iff) simp_all
    finally show ?thesis unfolding U .
  qed
  have "score_loop resume_skills req opt w 0 \<le> w * of_nat (card req) + of_nat (card opt)"
    using le by (simp only: loop num)
  with fs x0 x1 iff show ?thesis by blast
qed

lemma card_required_optional:
  "card (set (map skill_abr (filter required rs))) +
   card (set (map skill_abr (filter (\<lambda>r. \<not> required r) rs))) \<le> length rs"
proof -
  have "card (set (map skill_abr (filter required rs))) \<le> length (filter required rs)"
    by (metis card_length length_map)
  moreover have "card (set (map skill_abr (filter (\<lambda>r. \<not> required r) rs)))
                   \<le> length (filter (\<lambda>r. \<not> required r) rs)"
    by (metis card_length length_map)
  moreover have "length (filter required rs) + length (filter (\<lambda>r. \<not> required r) rs) = length rs"
    by (rule sum_length_filter_compl)
  ultimately show ?thesis by linarith
qed

subsection \<open>Substrings and the classifier loop\<close>

lemma take_eq_iff_append: "take (length kw) s = kw \<longleftrightarrow> (\<exists>suf. s = kw @ suf)"
proof
  assume "take (length kw) s = kw"
  then have "s = kw @ drop (length kw) s"
    by (metis append_take_drop_id)
  then show "\<exists>suf. s = kw @ suf" ..
next
  assume "\<exists>suf. s = kw @ suf"
  then show "take (length kw) s = kw" by auto
qed

lemma py_in_iff_substring: "py_in kw s \<longleftrightarrow> is_substring kw s"
proof (induction s)
  case Nil
  show ?case by (auto simp: is_substring_def)
next
  case (Cons c cs)
  have "is_substring kw (c # cs) \<longleftrightarrow> (\<exists>suf. c # cs = kw @ suf) \<or> is_substring kw cs"
  proof
    assume "is_substring kw (c # cs)"
    then obtain pre suf where eq: "c # cs = pre @ kw @ suf"
      unfolding is_substring_def by blast
    show "(\<exists>suf. c # cs = kw @ suf) \<or> is_substring kw cs"
    proof (cases pre)
      case Nil
      with eq show ?thesis by auto
    next
      case (Cons p ps)
      with eq have "cs = ps @ kw @ suf" by simp
      then show ?thesis unfolding is_substring_def by blast
    qed
  next
    assume "(\<exists>suf. c # cs = kw @ suf) \<or> is_substring kw cs"
    then show "is_substring kw (c # cs)"
    proof
      assume "\<exists>suf. c # cs = kw @ suf"
      then obtain suf where "c # cs = [] @ kw @ suf" by auto
      then show ?thesis unfolding is_substring_def by blast
    next
      assume "is_substring kw cs"
      then obtain pre suf where "cs = pre @ kw @ suf"
        unfolding is_substring_def by blast
      then have "c # cs = (c # pre) @ kw @ suf" by simp
      then show ?thesis unfolding is_substring_def by blast
    qed
  qed
  with Cons show ?case
    by (simp add: take_eq_iff_append del: take_Suc_Cons)
qed

lemma assign_loop_filter:
  "assign_loop items name_l roles =
     roles @ map fst (filter (\<lambda>(rl, kws). \<exists>kw \<in> set kws. py_in kw name_l) items)"
  by (induction items name_l roles rule: assign_loop.induct) (auto simp: list_ex_iff)

subsection \<open>Characters, patterns and the search\<close>



















section \<open>Properties of profile construction\<close>

text \<open>
  C1 (as amended). For every role and every entry of its built profile, \<open>pct_jobs\<close> is the
  occurrence count divided by the number of distinct jobs of the role and is positive; it
  is at most 1 when the job-skill links of the role's jobs hold no (job_id, skill_abr) row
  twice. Repeated rows are counted as occurrences, and nothing else bounds the quotient.
\<close>

theorem pct_jobs_bounds:
  assumes "r \<in> set (rows_of (build_role_skill_profile t rl min_jobs required_pct))"
  shows "0 < pct_jobs r \<and> (distinct (role_job_skills t rl) \<longrightarrow> pct_jobs r \<le> 1)"
proof -
  let ?n = "length (role_job_ids t rl)"
  let ?c = "count_list (map snd (role_job_skills t rl)) (skill_abr r)"
  have ne: "role_job_ids t rl \<noteq> []"
    and mem: "skill_abr r \<in> snd ` set (role_job_skills t rl)"
    and pct: "pct_jobs r = fl (of_nat ?c / of_nat ?n)"
    using profile_rowD(1-4) [OF assms] by simp_all
  from ne have n: "0 < ?n" by simp
  from mem have "skill_abr r \<in> set (map snd (role_job_skills t rl))" by simp
  then have c: "0 < ?c"
    using count_list_0_iff [of "map snd (role_job_skills t rl)" "skill_abr r"] by simp
  have q: "0 < (of_nat ?c / of_nat ?n :: rat)"
    using n c by simp
  then have pos: "0 < pct_jobs r"
    unfolding pct by (rule fl_pos)
  have "pct_jobs r \<le> 1" if "distinct (role_job_skills t rl)"
  proof -
    have "?c \<le> ?n" using that by (rule count_le_jobs)
    then have "(of_nat ?c :: rat) \<le> of_nat ?n" by simp
    then have "(of_nat ?c / of_nat ?n :: rat) \<le> 1" using n by simp
    with q show ?thesis
      unfolding pct by (rule fl_le_1)
  qed
  with pos show ?thesis by simp
qed

text \<open>The theorem at a role with two jobs and two links.\<close>

theorem pct_jobs_bounds_witness:
  "\<lparr>skill_abr = ''S1'', count = 1, pct_jobs = 1 / 2, skill_name = Some ''Python'',
     required = True, role = ''DATA_ANALYST''\<rparr>
     \<in> set (rows_of (build_role_skill_profile
          \<lparr>skills = [(''S1'', ''Python'')], job_skills = [(1, ''S1''), (2, ''S2'')],
           job_roles = [(1, ''DATA_ANALYST''), (2, ''DATA_ANALYST'')]\<rparr>
          ''DATA_ANALYST'' 50 (fl (3 / 10)))) \<and>
   distinct (role_job_skills
          \<lparr>skills = [(''S1'', ''Python'')], job_skills = [(1, ''S1''), (2, ''S2'')],
           job_roles = [(1, ''DATA_ANALYST''), (2, ''DATA_ANALYST'')]\<rparr> ''DATA_ANALYST'') \<and>
   (0 :: rat) < 1 / 2 \<and> (1 / 2 :: rat) \<le> 1"
proof -
  let ?t = "\<lparr>skills = [(''S1'', ''Python'')], job_skills = [(1, ''S1''), (2, ''S2'')],
           job_roles = [(1, ''DATA_ANALYST''), (2, ''DATA_ANALYST'')]\<rparr>"
  let ?r = "\<lparr>skill_abr = ''S1'', count = 1, pct_jobs = 1 / 2, skill_name = Some ''Python'',
     required = True, role = ''DATA_ANALYST''\<rparr>"
  have h: "?r \<in> set (rows_of (build_role_skill_profile ?t ''DATA_ANALYST'' 50 (fl (3 / 10))))"
    by code_simp
  have d: "distinct (role_job_skills ?t ''DATA_ANALYST'')"
    by code_simp
  from pct_jobs_bounds [OF h] d h show ?thesis by simp
qed

text \<open>
  The claim as stated fails: one job whose link to S1 is listed twice gives the count 2 over
  one job, so \<open>pct_jobs\<close> is 2.
\<close>

theorem pct_jobs_above_one:
  "map pct_jobs (rows_of (build_role_skill_profile
      \<lparr>skills = [(''S1'', ''Python'')], job_skills = [(1, ''S1''), (1, ''S1'')],
       job_roles = [(1, ''DATA_ANALYST'')]\<rparr> ''DATA_ANALYST'' 50 (fl (3 / 10)))) = [2]"
  by code_simp

text \<open>
  C6. In every built profile an entry is required exactly when its \<open>pct_jobs\<close> reaches
  \<open>required_pct\<close>; and for the same role and tables, a profile built with a higher
  threshold has the same rows in the same order up to the flag, and every entry it marks
  required is marked required under the lower threshold too.
\<close>

theorem required_threshold:
  "(\<forall>r \<in> set (rows_of (build_role_skill_profile t rl min_jobs p)).
      required r \<longleftrightarrow> p \<le> pct_jobs r) \<and>
   (p \<le> q \<longrightarrow>
      list_all2 (\<lambda>a b. b = a\<lparr>required := required b\<rparr> \<and> (required b \<longrightarrow> required a))
        (rows_of (build_role_skill_profile t rl min_jobs p))
        (rows_of (build_role_skill_profile t rl min_jobs q)))"
proof (intro conjI impI ballI)
  fix r assume "r \<in> set (rows_of (build_role_skill_profile t rl min_jobs p))"
  then show "required r \<longleftrightarrow> p \<le> pct_jobs r"
    by (rule profile_rowD(5))
next
  assume pq: "p \<le> q"
  show "list_all2 (\<lambda>a b. b = a\<lparr>required := required b\<rparr> \<and> (required b \<longrightarrow> required a))
        (rows_of (build_role_skill_profile t rl min_jobs p))
        (rows_of (build_role_skill_profile t rl min_jobs q))"
  proof (cases "role_job_ids t rl = []")
    case True
    then show ?thesis by (simp add: profile_rows_empty)
  next
    case False
    show ?thesis
      unfolding profile_rows [OF False]
      using pq by (auto simp: list_all2_map1 list_all2_map2 list_all2_same)
  qed
qed

theorem required_threshold_witness:
  "fl (3 / 10) \<le> fl (7 / 10) \<and>
   map (\<lambda>r. (skill_abr r, pct_jobs r, required r)) (rows_of (build_role_skill_profile
      \<lparr>skills = [(''S1'', ''Python'')], job_skills = [(1, ''S1''), (2, ''S1''), (2, ''S2'')],
       job_roles = [(1, ''DATA_ANALYST''), (2, ''DATA_ANALYST'')]\<rparr>
      ''DATA_ANALYST'' 50 (fl (3 / 10)))) = [(''S1'', 1, True), (''S2'', 1 / 2, True)] \<and>
   map (\<lambda>r. (skill_abr r, pct_jobs r, required r)) (rows_of (build_role_skill_profile
      \<lparr>skills = [(''S1'', ''Python'')], job_skills = [(1, ''S1''), (2, ''S1''), (2, ''S2'')],
       job_roles = [(1, ''DATA_ANALYST''), (2, ''DATA_ANALYST'')]\<rparr>
      ''DATA_ANALYST'' 50 (fl (7 / 10)))) = [(''S1'', 1, True), (''S2'', 1 / 2, False)] \<and>
   list_all2 (\<lambda>a b. b = a\<lparr>required := required b\<rparr> \<and> (required b \<longrightarrow> required a))
     (rows_of (build_role_skill_profile
      \<lparr>skills = [(''S1'', ''Python'')], job_skills = [(1, ''S1''), (2, ''S1''), (2, ''S2'')],
       job_roles = [(1, ''DATA_ANALYST''), (2, ''DATA_ANALYST'')]\<rparr>
      ''DATA_ANALYST'' 50 (fl (3 / 10))))
     (rows_of (build_role_skill_profile
      \<lparr>skills = [(''S1'', ''Python'')], job_skills = [(1, ''S1''), (2, ''S1''), (2, ''S2'')],
       job_roles = [(1, ''DATA_ANALYST''), (2, ''DATA_ANALYST'')]\<rparr>
      ''DATA_ANALYST'' 50 (fl (7 / 10))))"
proof -
  let ?t = "\<lparr>skills = [(''S1'', ''Python'')], job_skills = [(1, ''S1''), (2, ''S1''), (2, ''S2'')],
       job_roles = [(1, ''DATA_ANALYST''), (2, ''DATA_ANALYST'')]\<rparr>"
  have le: "fl (3 / 10) \<le> fl (7 / 10)" by code_simp
  have lo: "map (\<lambda>r. (skill_abr r, pct_jobs r, required r))
      (rows_of (build_role_skill_profile ?t ''DATA_ANALYST'' 50 (fl (3 / 10)))) =
      [(''S1'', 1, True), (''S2'', 1 / 2, True)]"
    by code_simp
  have hi: "map (\<lambda>r. (skill_abr r, pct_jobs r, required r))
      (rows_of (build_role_skill_profile ?t ''DATA_ANALYST'' 50 (fl (7 / 10)))) =
      [(''S1'', 1, True), (''S2'', 1 / 2, False)]"
    by code_simp
  from required_threshold [of ?t "''DATA_ANALYST''" 50 "fl (3 / 10)" "fl (7 / 10)"] le lo hi
  show ?thesis by blast
qed



text \<open>
  C8. A skill_abr that occurs in a job-skill link of a job of the role and has no entry in
  the skill catalog is in the profile, as a row whose name is missing and whose count is the
  number of its links.
\<close>

theorem uncatalogued_skill_kept:
  assumes "(j, rl) \<in> set (job_roles t)" and "(j, s) \<in> set (job_skills t)"
    and "s \<notin> fst ` set (skills t)"
  shows "(\<exists>r \<in> set (rows_of (build_role_skill_profile t rl min_jobs required_pct)).
            skill_abr r = s \<and> skill_name r = None) \<and>
         (\<forall>r \<in> set (rows_of (build_role_skill_profile t rl min_jobs required_pct)).
            skill_abr r = s \<longrightarrow> skill_name r = None \<and>
              count r = count_list (map snd (role_job_skills t rl)) s)"
proof -
  from assms(1) have j: "j \<in> set (role_job_ids t rl)"
    by (force simp: role_job_ids_def)
  then have ne: "role_job_ids t rl \<noteq> []" by auto
  from j assms(2) have s: "s \<in> snd ` set (role_job_skills t rl)"
    by (force simp: role_job_skills_def)
  let ?c = "count_list (map snd (role_job_skills t rl)) s"
  let ?row = "\<lparr>skill_abr = s, count = ?c,
             pct_jobs = fl (of_nat ?c / of_nat (length (role_job_ids t rl))),
             skill_name = None,
             required = (required_pct \<le> fl (of_nat ?c / of_nat (length (role_job_ids t rl)))),
             role = rl\<rparr>"
  have "?row \<in> set (rows_of (build_role_skill_profile t rl min_jobs required_pct))"
    using ne s assms(3) by (intro profile_rowI) simp_all
  then have ex: "\<exists>r \<in> set (rows_of (build_role_skill_profile t rl min_jobs required_pct)).
            skill_abr r = s \<and> skill_name r = None"
    by (intro bexI [of _ ?row]) simp_all
  have "skill_name r = None \<and> count r = ?c"
    if "r \<in> set (rows_of (build_role_skill_profile t rl min_jobs required_pct))"
      and "skill_abr r = s" for r
    using profile_rowD(3,7) [OF that(1)] that(2) assms(3) by simp
  with ex show ?thesis by blast
qed

theorem uncatalogued_skill_kept_witness:
  "(2, ''DATA_ANALYST'') \<in> set (job_roles
      \<lparr>skills = [(''S1'', ''Python'')], job_skills = [(1, ''S1''), (2, ''S9'')],
       job_roles = [(1, ''DATA_ANALYST''), (2, ''DATA_ANALYST'')]\<rparr>) \<and>
   ''S9'' \<notin> fst ` set [(''S1'', ''Python'')] \<and>
   (\<exists>r \<in> set (rows_of (build_role_skill_profile
      \<lparr>skills = [(''S1'', ''Python'')], job_skills = [(1, ''S1''), (2, ''S9'')],
       job_roles = [(1, ''DATA_ANALYST''), (2, ''DATA_ANALYST'')]\<rparr>
      ''DATA_ANALYST'' 50 (fl (3 / 10)))). skill_abr r = ''S9'' \<and> skill_name r = None)"
proof -
  let ?t = "\<lparr>skills = [(''S1'', ''Python'')], job_skills = [(1, ''S1''), (2, ''S9'')],
       job_roles = [(1, ''DATA_ANALYST''), (2, ''DATA_ANALYST'')]\<rparr>"
  have a: "(2, ''DATA_ANALYST'') \<in> set (job_roles ?t)" by simp
  have b: "(2, ''S9'') \<in> set (job_skills ?t)" by simp
  have c: "''S9'' \<notin> fst ` set (skills ?t)" by simp
  from uncatalogued_skill_kept [OF a b c, of 50 "fl (3 / 10)"] a c show ?thesis by simp
qed

text \<open>
  C9. The \<open>min_jobs\<close> argument has no effect on the result: for every role, every
  \<open>required_pct\<close> and any two values of \<open>min_jobs\<close> the two profiles are identical.
\<close>

theorem min_jobs_ignored:
  "build_role_skill_profile t rl m1 required_pct = build_role_skill_profile t rl m2 required_pct"
  by (simp add: build_role_skill_profile_def)

section \<open>Properties of scoring\<close>

text \<open>
  C3 (as amended). For every profile built for a role that has at least one job, every
  resume skill collection without repetitions and every \<open>required_weight\<close> that is a
  positive whole number (with \<open>required_weight\<close> times the number of profile rows below
  \<open>2\<^sup>5\<^sup>3\<close>), \<open>fit_score\<close> returns a value in [0, 1]: the weighted numerator summed over
  the resume skills never exceeds \<open>required_weight * |required_set| + |optional_set|\<close>.
  When the profile has at least one row, the value is 1 exactly when the resume skills
  contain every profiled skill. (The profile of a role without jobs has no columns and is
  not covered.)
\<close>

theorem fit_score_range:
  assumes "build_role_skill_profile t rl min_jobs required_pct = Frame rs"
    and "distinct resume_skills"
    and "w = of_nat k" and "0 < k" and "k * length rs < 2 ^ 53"
  shows "\<exists>x. fit_score resume_skills (Frame rs) w = Inr x \<and> 0 \<le> x \<and> x \<le> 1 \<and>
           score_loop resume_skills
             (set (map skill_abr (filter required rs)))
             (set (map skill_abr (filter (\<lambda>r. \<not> required r) rs))) w 0
           \<le> w * of_nat (card (set (map skill_abr (filter required rs))))
             + of_nat (card (set (map skill_abr (filter (\<lambda>r. \<not> required r) rs)))) \<and>
           (rs \<noteq> [] \<longrightarrow> (x = 1 \<longleftrightarrow> skill_abr ` set rs \<subseteq> set resume_skills))"
proof -
  let ?req = "set (map skill_abr (filter required rs))"
  let ?opt = "set (map skill_abr (filter (\<lambda>r. \<not> required r) rs))"
  have disj: "?req \<inter> ?opt = {}"
    using built_profile_consistent [OF assms(1)] by simp
  have "k * card ?req + card ?opt \<le> k * card ?req + k * card ?opt"
    using assms(4) by simp
  also have "\<dots> = k * (card ?req + card ?opt)"
    by (simp add: algebra_simps)
  also have "\<dots> \<le> k * length rs"
    using card_required_optional [of rs] by (intro mult_le_mono2)
  finally have "k * card ?req + card ?opt < 2 ^ 53"
    using assms(5) by simp
  with disj assms(2-4) show ?thesis
    by (rule fit_score_consistent)
qed

theorem fit_score_range_witness:
  "build_role_skill_profile
      \<lparr>skills = [(''S1'', ''Python''), (''S2'', ''SQL'')],
       job_skills = [(1, ''S1''), (2, ''S1''), (3, ''S1''), (4, ''S2'')],
       job_roles = [(1, ''DATA_ANALYST''), (2, ''DATA_ANALYST''), (3, ''DATA_ANALYST''),
                    (4, ''DATA_ANALYST''), (5, ''DATA_ANALYST'')]\<rparr>
      ''DATA_ANALYST'' 50 (fl (3 / 10)) =
     Frame [\<lparr>skill_abr = ''S1'', count = 3, pct_jobs = fl (3 / 5), skill_name = Some ''Python'',
              required = True, role = ''DATA_ANALYST''\<rparr>,
            \<lparr>skill_abr = ''S2'', count = 1, pct_jobs = fl (1 / 5), skill_name = Some ''SQL'',
              required = False, role = ''DATA_ANALYST''\<rparr>] \<and>
   distinct [''S1''] \<and> (2 :: rat) = of_nat 2 \<and> (0 :: nat) < 2 \<and>
   (\<exists>x. fit_score [''S1'']
      (Frame [\<lparr>skill_abr = ''S1'', count = 3, pct_jobs = fl (3 / 5), skill_name = Some ''Python'',
              required = True, role = ''DATA_ANALYST''\<rparr>,
            \<lparr>skill_abr = ''S2'', count = 1, pct_jobs = fl (1 / 5), skill_name = Some ''SQL'',
              required = False, role = ''DATA_ANALYST''\<rparr>]) 2 = Inr x \<and>
      0 \<le> x \<and> x \<le> 1 \<and> x \<noteq> 1)"
proof -
  let ?t = "\<lparr>skills = [(''S1'', ''Python''), (''S2'', ''SQL'')],
       job_skills = [(1, ''S1''), (2, ''S1''), (3, ''S1''), (4, ''S2'')],
       job_roles = [(1, ''DATA_ANALYST''), (2, ''DATA_ANALYST''), (3, ''DATA_ANALYST''),
                    (4, ''DATA_ANALYST''), (5, ''DATA_ANALYST'')]\<rparr>"
  let ?rs = "[\<lparr>skill_abr = ''S1'', count = 3, pct_jobs = fl (3 / 5), skill_name = Some ''Python'',
              required = True, role = ''DATA_ANALYST''\<rparr>,
            \<lparr>skill_abr = ''S2'', count = 1, pct_jobs = fl (1 / 5), skill_name = Some ''SQL'',
              required = False, role = ''DATA_ANALYST''\<rparr>]"
  have h: "build_role_skill_profile ?t ''DATA_ANALYST'' 50 (fl (3 / 10)) = Frame ?rs"
    by code_simp
  have d: "distinct [''S1'']" by simp
  have w: "(2 :: rat) = of_nat 2" by simp
  have k: "(0 :: nat) < 2" by simp
  have small: "2 * length ?rs < 2 ^ 53" by simp
  have n: "\<not> skill_abr ` set ?rs \<subseteq> set [''S1'']" by simp
  from fit_score_range [OF h d w k small] n h show ?thesis by auto
qed

text \<open>
  The claim as stated fails in three ways. On a profile without rows the resume skills
  contain every profiled skill, and the guard on the denominator returns 0, not 1. With the
  weight 2.3 and six required skills, all in the resume, the six additions of the loop
  round to a sum one unit in the last place above the product in the denominator, and the
  score is \<open>1 + 2\<^sup>-\<^sup>5\<^sup>2\<close>. With the weight -1, one required skill and two optional ones
  in the resume, the denominator is 1 and the score is 2.
\<close>

theorem fit_score_claim_fails:
  "build_role_skill_profile
      \<lparr>skills = [(''S1'', ''Python''), (''S2'', ''SQL'')], job_skills = [(2, ''S1'')],
       job_roles = [(1, ''DATA_ANALYST'')]\<rparr> ''DATA_ANALYST'' 50 (fl (3 / 10)) = Frame [] \<and>
   skill_abr ` set [] \<subseteq> set [''S1''] \<and>
   fit_score [''S1''] (Frame []) 2 = Inr 0 \<and>
   fit_score [''S1'', ''S2'', ''S3'', ''S4'', ''S5'', ''S6'']
     (build_role_skill_profile
        \<lparr>skills = [],
         job_skills = [(1, ''S1''), (1, ''S2''), (1, ''S3''), (1, ''S4''), (1, ''S5''),
                       (1, ''S6'')],
         job_roles = [(1, ''DATA_ANALYST'')]\<rparr> ''DATA_ANALYST'' 50 (fl (3 / 10)))
     (fl (23 / 10)) = Inr (1 + 1 / 2 ^ 52) \<and>
   fit_score [''S2'', ''S3'']
     (build_role_skill_profile
        \<lparr>skills = [], job_skills = [(1, ''S1''), (2, ''S1''), (1, ''S2''), (2, ''S3'')],
         job_roles = [(1, ''DATA_ANALYST''), (2, ''DATA_ANALYST'')]\<rparr> ''DATA_ANALYST'' 50 1)
     (- 1) = Inr 2"
  by code_simp

text \<open>
  C4. Degenerate-empty inputs should give zero results: a role without jobs an empty profile,
  and \<open>fit_score\<close> against an empty profile 0. The first half holds. The second holds for
  a frame that has its columns and no row; on the frame that \<open>build_role_skill_profile\<close>
  returns for a role without jobs, \<^verbatim>\<open>role_profile.required\<close> raises AttributeError
  before the guard on the denominator is reached.
\<close>

theorem empty_profile_breaks_fit_score:
  "build_role_skill_profile (t\<lparr>job_roles := []\<rparr>) rl min_jobs required_pct = EmptyFrame \<and>
   fit_score resume_skills
     (build_role_skill_profile (t\<lparr>job_roles := []\<rparr>) rl min_jobs required_pct) w
     = Inl AttributeError \<and>
   fit_score resume_skills (Frame []) w = Inr 0"
  by (simp add: build_role_skill_profile_def role_job_ids_def fit_score_def)

section \<open>Properties of classification\<close>

text \<open>
  C5. For every industry name, a string or another value passed through \<^verbatim>\<open>str()\<close>,
  the classifier returns exactly the configured role keys that have at least one keyword
  occurring as a substring of the lower-cased name, in configuration order: the result is
  a subset of the role keys, and it is empty if and only if no keyword occurs.
\<close>

theorem assign_role_from_industry_correct:
  "assign_role_from_industry v =
     map fst (filter (\<lambda>(rl, kws). \<exists>kw \<in> set kws. is_substring kw (lower (py_str v))) ROLE_KEYWORDS) \<and>
   set (assign_role_from_industry v) =
     {rl. \<exists>kws. (rl, kws) \<in> set ROLE_KEYWORDS \<and>
            (\<exists>kw \<in> set kws. is_substring kw (lower (py_str v)))} \<and>
   set (assign_role_from_industry v) \<subseteq> fst ` set ROLE_KEYWORDS \<and>
   (assign_role_from_industry v = [] \<longleftrightarrow>
      \<not> (\<exists>(rl, kws) \<in> set ROLE_KEYWORDS. \<exists>kw \<in> set kws. is_substring kw (lower (py_str v))))"
proof -
  have eq: "assign_role_from_industry v =
     map fst (filter (\<lambda>(rl, kws). \<exists>kw \<in> set kws. is_substring kw (lower (py_str v))) ROLE_KEYWORDS)"
    by (simp add: assign_role_from_industry_def assign_loop_filter py_in_iff_substring)
  have "set (assign_role_from_industry v) =
     {rl. \<exists>kws. (rl, kws) \<in> set ROLE_KEYWORDS \<and>
            (\<exists>kw \<in> set kws. is_substring kw (lower (py_str v)))}"
    unfolding eq by force
  moreover have "set (assign_role_from_industry v) \<subseteq> fst ` set ROLE_KEYWORDS"
    unfolding eq by force
  moreover have "assign_role_from_industry v = [] \<longleftrightarrow>
      \<not> (\<exists>(rl, kws) \<in> set ROLE_KEYWORDS. \<exists>kw \<in> set kws. is_substring kw (lower (py_str v)))"
    unfolding eq by (auto simp: filter_empty_conv)
  ultimately show ?thesis using eq by blast
qed

theorem assign_role_from_industry_correct_witness:
  "assign_role_from_industry (PyStr ''Software Development'') = [''ML_ENGINEER'', ''FRONTEND_DEV''] \<and>
   is_substring ''software'' (lower (py_str (PyStr ''Software Development''))) \<and>
   lower (py_str PyNaN) = ''nan'' \<and>
   assign_role_from_industry PyNaN = [] \<and>
   \<not> (\<exists>(rl, kws) \<in> set ROLE_KEYWORDS. \<exists>kw \<in> set kws. is_substring kw ''nan'')"
proof -
  have a: "assign_role_from_industry (PyStr ''Software Development'') =
             [''ML_ENGINEER'', ''FRONTEND_DEV'']"
    by code_simp
  have b: "lower (py_str (PyStr ''Software Development'')) = [] @ ''software'' @ '' development''"
    by code_simp
  then have b': "is_substring ''software'' (lower (py_str (PyStr ''Software Development'')))"
    unfolding is_substring_def by blast
  have c: "lower (py_str PyNaN) = ''nan''" by code_simp
  have d: "assign_role_from_industry PyNaN = []" by code_simp
  from assign_role_from_industry_correct [of PyNaN] a b' c d show ?thesis by simp
qed

section \<open>Properties of extraction\<close>



section \<open>The round trip\<close>



end
